theory Spec2Isabelle
  imports Main "HOL-Library.AList" "HOL-Library.Sublist"
begin

section \<open>Strings of the matcher\<close>

text \<open>
  A JavaScript string is a sequence of UTF-16 code units. A \<^typ>\<open>char\<close> stands for a code
  unit below 256 (the Latin-1 range), so every \<^typ>\<open>string\<close> is a JavaScript string and
  \<^const>\<open>length\<close> is its \<^verbatim>\<open>.length\<close>. The character classes below are the classes of
  ECMAScript restricted to that range.
\<close>

definition is_space :: "char \<Rightarrow> bool" where
  \<comment> \<open>\<^verbatim>\<open>\s\<close> and the characters removed by \<^verbatim>\<open>trim()\<close>: TAB, LF, VT, FF, CR, SPACE, NBSP\<close>
  "is_space c = (of_char c \<in> {9, 10, 11, 12, 13, 32, 160 :: nat})"

definition is_digit :: "char \<Rightarrow> bool" where
  \<comment> \<open>\<^verbatim>\<open>\d\<close>\<close>
  "is_digit c = (48 \<le> (of_char c :: nat) \<and> (of_char c :: nat) \<le> 57)"

definition is_upper :: "char \<Rightarrow> bool" where
  \<comment> \<open>\<^verbatim>\<open>[A-Z]\<close> without the i flag\<close>
  "is_upper c = (65 \<le> (of_char c :: nat) \<and> (of_char c :: nat) \<le> 90)"

definition is_letter :: "char \<Rightarrow> bool" where
  \<comment> \<open>\<^verbatim>\<open>[a-z]\<close> under the i flag\<close>
  "is_letter c = (is_upper c \<or> (97 \<le> (of_char c :: nat) \<and> (of_char c :: nat) \<le> 122))"

definition is_line_terminator :: "char \<Rightarrow> bool" where
  \<comment> \<open>the characters that \<^verbatim>\<open>.\<close> does not match: LF and CR\<close>
  "is_line_terminator c = (of_char c \<in> {10, 13 :: nat})"

definition toLowerCase_char :: "char \<Rightarrow> char" where
  \<comment> \<open>A-Z, and the Latin-1 capitals U+00C0 to U+00DE except the multiplication sign\<close>
  "toLowerCase_char c =
     (let n = (of_char c :: nat)
      in if (65 \<le> n \<and> n \<le> 90) \<or> (192 \<le> n \<and> n \<le> 222 \<and> n \<noteq> 215)
         then char_of (n + 32) else c)"

definition toLowerCase :: "string \<Rightarrow> string" where
  "toLowerCase s = map toLowerCase_char s"

definition trim :: "string \<Rightarrow> string" where
  "trim s = rev (dropWhile is_space (rev (dropWhile is_space s)))"

definition trimmed :: "string \<Rightarrow> bool" where
  \<comment> \<open>no white space at either end\<close>
  "trimmed t = (t = [] \<or> (\<not> is_space (hd t) \<and> \<not> is_space (last t)))"

fun includes_str :: "string \<Rightarrow> string \<Rightarrow> bool" where
  \<comment> \<open>\<^verbatim>\<open>s.includes(k)\<close>: \<open>k\<close> occurs in \<open>s\<close> at some start position\<close>
  "includes_str [] k = (k = [])"
| "includes_str (c # cs) k = (take (length k) (c # cs) = k \<or> includes_str cs k)"


section \<open>The regular expressions of \<^verbatim>\<open>getEntry\<close>\<close>

text \<open>
  A pattern anchored with \<^verbatim>\<open>^\<close> is a function from the subject to the rest of the subject
  after the match, \<open>None\<close> when it does not match. The pieces follow the pattern from left
  to right. Every quantifier of these patterns is followed by a character outside its own
  class, so the greedy choice is the only one that can succeed.
\<close>

fun lit :: "string \<Rightarrow> string \<Rightarrow> string option" where
  \<comment> \<open>a literal (written in lower case) matched under the i flag\<close>
  "lit [] s = Some s"
| "lit (p # ps) [] = None"
| "lit (p # ps) (c # cs) = (if toLowerCase_char c = p then lit ps cs else None)"

definition opt_lit :: "string \<Rightarrow> string \<Rightarrow> string" where
  \<comment> \<open>\<^verbatim>\<open>(literal)?\<close>\<close>
  "opt_lit p s = (case lit p s of Some r \<Rightarrow> r | None \<Rightarrow> s)"

definition digits :: "nat \<Rightarrow> string \<Rightarrow> string option" where
  \<comment> \<open>\<^verbatim>\<open>\d{n}\<close>\<close>
  "digits n s = (if n \<le> length s \<and> list_all is_digit (take n s) then Some (drop n s) else None)"

definition spaces1 :: "string \<Rightarrow> string option" where
  \<comment> \<open>\<^verbatim>\<open>\s+\<close>\<close>
  "spaces1 s = (case s of [] \<Rightarrow> None
                | c # cs \<Rightarrow> if is_space c then Some (dropWhile is_space cs) else None)"

definition opt_on :: "string \<Rightarrow> string" where
  \<comment> \<open>\<^verbatim>\<open>(on\s+)?\<close>\<close>
  "opt_on s = (case Option.bind (lit ''on'' s) spaces1 of Some r \<Rightarrow> r | None \<Rightarrow> s)"

definition re_proceedings_year :: "string \<Rightarrow> string option" where
  \<comment> \<open>\<^verbatim>\<open>/^proceedings of (the )?\d{4}\s+(on\s+)?/i\<close>\<close>
  "re_proceedings_year s =
     (case lit ''proceedings of '' s of None \<Rightarrow> None
      | Some r1 \<Rightarrow>
         (case digits 4 (opt_lit ''the '' r1) of None \<Rightarrow> None
          | Some r2 \<Rightarrow>
             (case spaces1 r2 of None \<Rightarrow> None
              | Some r3 \<Rightarrow> Some (opt_on r3))))"

definition re_proceedings :: "string \<Rightarrow> string option" where
  \<comment> \<open>\<^verbatim>\<open>/^proceedings of (the )?/i\<close>\<close>
  "re_proceedings s =
     (case lit ''proceedings of '' s of None \<Rightarrow> None
      | Some r \<Rightarrow> Some (opt_lit ''the '' r))"

definition re_proc :: "string \<Rightarrow> string option" where
  \<comment> \<open>\<^verbatim>\<open>/^proc\.? of (the )?/i\<close>\<close>
  "re_proc s =
     (case lit ''proc'' s of None \<Rightarrow> None
      | Some r1 \<Rightarrow>
         (case lit '' of '' (opt_lit ''.'' r1) of None \<Rightarrow> None
          | Some r2 \<Rightarrow> Some (opt_lit ''the '' r2)))"

definition digits_2_4_colon :: "string \<Rightarrow> string option" where
  \<comment> \<open>\<^verbatim>\<open>\d{2,4}:\<close>, the longest run first\<close>
  "digits_2_4_colon s =
     (case Option.bind (digits 4 s) (lit '':'') of Some r \<Rightarrow> Some r
      | None \<Rightarrow>
         (case Option.bind (digits 3 s) (lit '':'') of Some r \<Rightarrow> Some r
          | None \<Rightarrow> Option.bind (digits 2 s) (lit '':'')))"

definition re_quoted_year :: "string \<Rightarrow> string option" where
  \<comment> \<open>\<^verbatim>\<open>/^[a-z]+\s*[']\d{2,4}:\s*/i\<close> (the class holds the apostrophe, twice)\<close>
  "re_quoted_year s =
     (case s of [] \<Rightarrow> None
      | c # cs \<Rightarrow>
         if is_letter c then
           (case lit [CHR 0x27] (dropWhile is_space (dropWhile is_letter cs)) of None \<Rightarrow> None
            | Some r1 \<Rightarrow>
               (case digits_2_4_colon r1 of None \<Rightarrow> None
                | Some r2 \<Rightarrow> Some (dropWhile is_space r2)))
         else None)"

definition re_leading_year :: "string \<Rightarrow> string option" where
  \<comment> \<open>\<^verbatim>\<open>/^\d{4}\s+/\<close>\<close>
  "re_leading_year s = Option.bind (digits 4 s) spaces1"

definition replace_prefix :: "(string \<Rightarrow> string option) \<Rightarrow> string \<Rightarrow> string" where
  \<comment> \<open>\<^verbatim>\<open>s.replace(re, "")\<close> for a pattern anchored with \<^verbatim>\<open>^\<close>\<close>
  "replace_prefix re s = (case re s of Some r \<Rightarrow> r | None \<Rightarrow> s)"

text \<open>
  A pattern that ends with \<^verbatim>\<open>$\<close> and is not anchored at the start is the predicate "the
  whole of this suffix matches". \<^verbatim>\<open>replace\<close> tries the start positions from the left and
  deletes the first suffix that matches.
\<close>

definition full_year_suffix :: "string \<Rightarrow> bool" where
  \<comment> \<open>\<^verbatim>\<open>\s*\d{4}\<close> against a whole string\<close>
  "full_year_suffix t = (let u = dropWhile is_space t in length u = 4 \<and> list_all is_digit u)"

definition full_paren_group :: "string \<Rightarrow> bool" where
  \<comment> \<open>\<^verbatim>\<open>\s*\([^)]*\)\<close> against a whole string\<close>
  "full_paren_group t =
     (case dropWhile is_space t of [] \<Rightarrow> False
      | c # cs \<Rightarrow> c = CHR ''('' \<and> cs \<noteq> [] \<and> last cs = CHR '')''
                 \<and> CHR '')'' \<notin> set (butlast cs))"

fun replace_at_end :: "(string \<Rightarrow> bool) \<Rightarrow> string \<Rightarrow> string" where
  \<comment> \<open>\<^verbatim>\<open>s.replace(re, "")\<close> for a pattern that ends with \<^verbatim>\<open>$\<close>\<close>
  "replace_at_end full [] = []"
| "replace_at_end full (c # cs) = (if full (c # cs) then [] else c # replace_at_end full cs)"

definition strip_steps :: "string \<Rightarrow> string" where
  \<comment> \<open>the seven \<^verbatim>\<open>replace\<close> calls of lines 66 to 79, first to last\<close>
  "strip_steps s =
     replace_at_end full_paren_group
      (replace_at_end full_year_suffix
        (replace_prefix re_leading_year
          (replace_prefix re_quoted_year
            (replace_prefix re_proc
              (replace_prefix re_proceedings
                (replace_prefix re_proceedings_year s))))))"

definition normalize_name :: "string \<Rightarrow> string" where
  \<comment> \<open>lines 64 to 80 of \<^verbatim>\<open>getEntry\<close>: trim, lower case, the seven replacements, trim\<close>
  "normalize_name name = trim (strip_steps (toLowerCase (trim name)))"


section \<open>The reference table and its index\<close>

datatype Rank = A | B | C

record CCFEntry =
  abbr :: string
  fullName :: string
  rank :: Rank
  category :: string

text \<open>
  A JavaScript \<^verbatim>\<open>Map\<close> iterates in insertion order, and \<^verbatim>\<open>set\<close> on a key that is present
  replaces the value where the key stands. That is \<^const>\<open>AList.update\<close> on an association
  list; \<^verbatim>\<open>get\<close> is \<^const>\<open>map_of\<close>.
\<close>

record CCFRankService =
  conferences :: "CCFEntry list"
  journals :: "CCFEntry list"
  abbrsMap :: "(string \<times> CCFEntry) list"
  fullNamesMap :: "(string \<times> CCFEntry) list"

definition index_entry :: "CCFRankService \<Rightarrow> CCFEntry \<Rightarrow> CCFRankService" where
  \<comment> \<open>the body of the \<^verbatim>\<open>forEach\<close> of the constructor\<close>
  "index_entry svc entry =
     svc\<lparr>abbrsMap := AList.update (toLowerCase (abbr entry)) entry (abbrsMap svc),
         fullNamesMap := AList.update (toLowerCase (fullName entry)) entry (fullNamesMap svc)\<rparr>"

definition new_CCFRankService :: "CCFEntry list \<Rightarrow> CCFEntry list \<Rightarrow> CCFRankService" where
  \<comment> \<open>the constructor; the two lists are the collections of \<^verbatim>\<open>ccf-conferences.json\<close>,
      which is data and not part of the code, a missing collection being the empty list\<close>
  "new_CCFRankService cs js =
     foldl index_entry
       \<lparr>conferences = cs, journals = js, abbrsMap = [], fullNamesMap = []\<rparr>
       (cs @ js)"

fun fuzzy_scan :: "nat \<Rightarrow> string \<Rightarrow> (string \<times> CCFEntry) list \<Rightarrow> CCFEntry option" where
  \<comment> \<open>the \<^verbatim>\<open>for\<close> loops of strategies 3 and 4, over the entries in iteration order\<close>
  "fuzzy_scan n normalized [] = None"
| "fuzzy_scan n normalized ((key, value) # rest) =
     (if n \<le> length key \<and> includes_str normalized key then Some value
      else fuzzy_scan n normalized rest)"

definition fuzzy_abbr :: "CCFRankService \<Rightarrow> string \<Rightarrow> CCFEntry option" where
  \<comment> \<open>strategy 3\<close>
  "fuzzy_abbr svc normalized = fuzzy_scan 4 normalized (abbrsMap svc)"

definition fuzzy_fullName :: "CCFRankService \<Rightarrow> string \<Rightarrow> CCFEntry option" where
  \<comment> \<open>strategy 4\<close>
  "fuzzy_fullName svc normalized = fuzzy_scan 20 normalized (fullNamesMap svc)"

fun getEntry :: "CCFRankService \<Rightarrow> string option \<Rightarrow> CCFEntry option" where
  \<comment> \<open>\<open>None\<close> as argument is an absent name (\<^verbatim>\<open>null\<close> or \<^verbatim>\<open>undefined\<close>); \<open>None\<close> as result is
      \<^verbatim>\<open>null\<close>\<close>
  "getEntry svc None = None"
| "getEntry svc (Some name) =
     (if name = [] then None
      else
        let normalized = normalize_name name in
        case map_of (abbrsMap svc) normalized of Some entry \<Rightarrow> Some entry
        | None \<Rightarrow>
           (case map_of (fullNamesMap svc) normalized of Some entry \<Rightarrow> Some entry
            | None \<Rightarrow>
               (case fuzzy_abbr svc normalized of Some entry \<Rightarrow> Some entry
                | None \<Rightarrow> fuzzy_fullName svc normalized)))"

definition getRank_name :: "CCFRankService \<Rightarrow> string option \<Rightarrow> Rank option" where
  \<comment> \<open>\<^verbatim>\<open>CCFRankService.getRank\<close>\<close>
  "getRank_name svc name = map_option rank (getEntry svc name)"


section \<open>Bibliographic records\<close>

record Item =
  itemID :: int
  itemType :: string
  fieldValues :: "string \<Rightarrow> string"

definition getField :: "Item \<Rightarrow> string \<Rightarrow> string" where
  "getField item f = fieldValues item f"

definition paren_token_at :: "string \<Rightarrow> string option" where
  \<comment> \<open>\<^verbatim>\<open>\(([A-Z]+[']?\d*)\)\<close> at the start of the subject; the result is group 1\<close>
  "paren_token_at t =
     (case t of [] \<Rightarrow> None
      | c # r \<Rightarrow>
         if c = CHR ''('' \<and> takeWhile is_upper r \<noteq> [] then
           (let us = takeWhile is_upper r;
                r1 = dropWhile is_upper r;
                q = (case r1 of [] \<Rightarrow> [] | d # _ \<Rightarrow> if d = CHR 0x27 then [d] else []);
                r2 = drop (length q) r1;
                ds = takeWhile is_digit r2;
                r3 = dropWhile is_digit r2
            in case r3 of [] \<Rightarrow> None
               | e # _ \<Rightarrow> if e = CHR '')'' then Some (us @ q @ ds) else None)
         else None)"

fun title_match :: "string \<Rightarrow> string option" where
  \<comment> \<open>\<^verbatim>\<open>title.match(/\(([A-Z]+[']?\d*)\)/)\<close>: the leftmost start position that matches\<close>
  "title_match [] = None"
| "title_match (c # cs) =
     (case paren_token_at (c # cs) of Some g \<Rightarrow> Some g | None \<Rightarrow> title_match cs)"

definition strip_quote :: "string \<Rightarrow> string" where
  \<comment> \<open>\<^verbatim>\<open>.replace(/['].*/, "")\<close>: from the first apostrophe to the end of its line\<close>
  "strip_quote s =
     (case dropWhile (\<lambda>c. c \<noteq> CHR 0x27) s of [] \<Rightarrow> s
      | q # r \<Rightarrow> takeWhile (\<lambda>c. c \<noteq> CHR 0x27) s
                 @ dropWhile (\<lambda>c. \<not> is_line_terminator c) r)"

definition try_field :: "CCFRankService \<Rightarrow> string \<Rightarrow> CCFEntry option" where
  \<comment> \<open>\<^verbatim>\<open>if (field) { const entry = this.getEntry(field); if (entry) return entry; }\<close>:
      \<open>Some\<close> is the early return, \<open>None\<close> falls through\<close>
  "try_field svc field = (if field \<noteq> [] then getEntry svc (Some field) else None)"

definition title_fallback :: "CCFRankService \<Rightarrow> Item \<Rightarrow> CCFEntry option" where
  \<comment> \<open>strategy 4 of \<^verbatim>\<open>getEntryFromItem\<close>\<close>
  "title_fallback svc item =
     (let title = getField item ''title'' in
      if title \<noteq> [] then
        (case title_match title of None \<Rightarrow> None
         | Some g \<Rightarrow> getEntry svc (Some (strip_quote g)))
      else None)"

definition generic_fallback :: "CCFRankService \<Rightarrow> Item \<Rightarrow> CCFEntry option" where
  \<comment> \<open>strategies 3 and 4 of \<^verbatim>\<open>getEntryFromItem\<close>\<close>
  "generic_fallback svc item =
     (case try_field svc (getField item ''publicationTitle'') of Some entry \<Rightarrow> Some entry
      | None \<Rightarrow> title_fallback svc item)"

definition journal_strategy :: "CCFRankService \<Rightarrow> Item \<Rightarrow> CCFEntry option" where
  \<comment> \<open>strategy 2 of \<^verbatim>\<open>getEntryFromItem\<close> and what follows it\<close>
  "journal_strategy svc item =
     (if itemType item = ''journalArticle'' then
        (case try_field svc (getField item ''publicationTitle'') of Some entry \<Rightarrow> Some entry
         | None \<Rightarrow> generic_fallback svc item)
      else generic_fallback svc item)"

fun getEntryFromItem :: "CCFRankService \<Rightarrow> Item option \<Rightarrow> CCFEntry option" where
  "getEntryFromItem svc None = None"
| "getEntryFromItem svc (Some item) =
     (if itemType item = ''conferencePaper'' then
        (case try_field svc (getField item ''proceedingsTitle'') of Some entry \<Rightarrow> Some entry
         | None \<Rightarrow>
            (case try_field svc (getField item ''publicationTitle'') of Some entry \<Rightarrow> Some entry
             | None \<Rightarrow>
                (case try_field svc (getField item ''conferenceName'') of Some entry \<Rightarrow> Some entry
                 | None \<Rightarrow> journal_strategy svc item)))
      else journal_strategy svc item)"

definition getRankFromItem :: "CCFRankService \<Rightarrow> Item option \<Rightarrow> Rank option" where
  "getRankFromItem svc item = map_option rank (getEntryFromItem svc item)"

definition getCategoryFromItem :: "CCFRankService \<Rightarrow> Item option \<Rightarrow> string option" where
  "getCategoryFromItem svc item = map_option category (getEntryFromItem svc item)"


section \<open>The manual override store\<close>

record ManualCCFRankService =
  cache :: "int \<rightharpoonup> string"
  ignoreSet :: "int set"

definition rank_str :: "Rank \<Rightarrow> string" where
  \<comment> \<open>the string of a rank, \<^verbatim>\<open>"A" | "B" | "C"\<close>\<close>
  "rank_str r = (case r of A \<Rightarrow> ''A'' | B \<Rightarrow> ''B'' | C \<Rightarrow> ''C'')"

definition new_ManualCCFRankService :: ManualCCFRankService where
  \<comment> \<open>the field initialisers, which \<^verbatim>\<open>loadFromStorage\<close> keeps when no preference is stored;
      a store read from the preferences is the arbitrary store \<open>s\<close> of the properties below\<close>
  "new_ManualCCFRankService = \<lparr>cache = Map.empty, ignoreSet = {}\<rparr>"

text \<open>
  \<^verbatim>\<open>saveToStorage\<close> writes the two collections to the preferences and catches every error;
  it changes neither \<open>cache\<close> nor \<open>ignoreSet\<close>, so it has no part in the state below.
\<close>

definition setRank :: "int \<Rightarrow> Rank \<Rightarrow> ManualCCFRankService \<Rightarrow> ManualCCFRankService" where
  "setRank itemID' r s =
     s\<lparr>cache := (cache s)(itemID' \<mapsto> rank_str r), ignoreSet := ignoreSet s - {itemID'}\<rparr>"

definition getRank :: "ManualCCFRankService \<Rightarrow> int \<Rightarrow> string option" where
  \<comment> \<open>\<^verbatim>\<open>this.cache.get(itemID) || null\<close>: the empty string is falsy\<close>
  "getRank s itemID' =
     (case cache s itemID' of None \<Rightarrow> None | Some v \<Rightarrow> if v = [] then None else Some v)"

definition clearRank :: "int \<Rightarrow> ManualCCFRankService \<Rightarrow> ManualCCFRankService" where
  "clearRank itemID' s =
     s\<lparr>cache := (cache s)(itemID' := None), ignoreSet := ignoreSet s - {itemID'}\<rparr>"

definition hasManualRank :: "ManualCCFRankService \<Rightarrow> int \<Rightarrow> bool" where
  "hasManualRank s itemID' = (cache s itemID' \<noteq> None)"

definition ignoreItem :: "int \<Rightarrow> ManualCCFRankService \<Rightarrow> ManualCCFRankService" where
  "ignoreItem itemID' s =
     s\<lparr>ignoreSet := insert itemID' (ignoreSet s), cache := (cache s)(itemID' := None)\<rparr>"

definition isIgnored :: "ManualCCFRankService \<Rightarrow> int \<Rightarrow> bool" where
  "isIgnored s itemID' = (itemID' \<in> ignoreSet s)"

datatype manual_op = SetRank int Rank | ClearRank int | IgnoreItem int

fun apply_op :: "ManualCCFRankService \<Rightarrow> manual_op \<Rightarrow> ManualCCFRankService" where
  "apply_op s (SetRank i r) = setRank i r s"
| "apply_op s (ClearRank i) = clearRank i s"
| "apply_op s (IgnoreItem i) = ignoreItem i s"

definition run_ops :: "manual_op list \<Rightarrow> ManualCCFRankService \<Rightarrow> ManualCCFRankService" where
  \<comment> \<open>a sequence of mutating calls, first to last\<close>
  "run_ops ops s = foldl apply_op s ops"

definition dataProvider :: "ManualCCFRankService \<Rightarrow> CCFRankService \<Rightarrow> Item \<Rightarrow> string" where
  \<comment> \<open>the \<^verbatim>\<open>dataProvider\<close> of the column \<^verbatim>\<open>ccfRank\<close>\<close>
  "dataProvider manual svc item =
     (if isIgnored manual (itemID item) then []
      else
        (case getRank manual (itemID item) of
           Some manualRank \<Rightarrow> manualRank
         | None \<Rightarrow>
            (case getRankFromItem svc (Some item) of Some r \<Rightarrow> rank_str r | None \<Rightarrow> [])))"


section \<open>Sample data\<close>

definition sample_cvpr :: CCFEntry where
  "sample_cvpr = \<lparr>abbr = ''CVPR'',
     fullName = ''IEEE Conference on Computer Vision and Pattern Recognition'',
     rank = A, category = ''Artificial Intelligence''\<rparr>"

definition sample_dcc_conf :: CCFEntry where
  "sample_dcc_conf = \<lparr>abbr = ''DCC'', fullName = ''Data Compression Conference'',
     rank = B, category = ''Computer Graphics and Multimedia''\<rparr>"

definition sample_dcc_journal :: CCFEntry where
  \<comment> \<open>the same abbreviation as \<open>sample_dcc_conf\<close>\<close>
  "sample_dcc_journal = \<lparr>abbr = ''DCC'', fullName = ''Designs, Codes and Cryptography'',
     rank = B, category = ''Network and Information Security''\<rparr>"

definition sample_proc_ieee :: CCFEntry where
  \<comment> \<open>a full name that starts with a prefix the normalisation strips\<close>
  "sample_proc_ieee = \<lparr>abbr = ''Proc. IEEE'', fullName = ''Proceedings of the IEEE'',
     rank = A, category = ''Interdisciplinary''\<rparr>"

definition sample_ai :: CCFEntry where
  \<comment> \<open>an abbreviation shorter than 4\<close>
  "sample_ai = \<lparr>abbr = ''AI'', fullName = ''Artificial Intelligence'',
     rank = A, category = ''Artificial Intelligence''\<rparr>"

definition sample_algorithmica :: CCFEntry where
  \<comment> \<open>a full name shorter than 20\<close>
  "sample_algorithmica = \<lparr>abbr = ''Algorithmica'', fullName = ''Algorithmica'',
     rank = B, category = ''Computer Science Theory''\<rparr>"

definition sample_networking :: CCFEntry where
  "sample_networking = \<lparr>abbr = ''Networking'',
     fullName = ''IFIP International Conferences on Networking'',
     rank = C, category = ''Computer Networks''\<rparr>"

definition sample_netw :: CCFEntry where
  \<comment> \<open>a full name that is the abbreviation of \<open>sample_networking\<close>\<close>
  "sample_netw = \<lparr>abbr = ''NETW'', fullName = ''Networking'',
     rank = B, category = ''Computer Networks''\<rparr>"

definition sample_cvprw :: CCFEntry where
  \<comment> \<open>a full name that contains the abbreviation of \<open>sample_cvpr\<close>\<close>
  "sample_cvprw = \<lparr>abbr = ''CVPRW'', fullName = ''CVPR Workshops'',
     rank = C, category = ''Artificial Intelligence''\<rparr>"

definition sample_table :: "CCFEntry list" where
  \<comment> \<open>the short keys stand first in iteration order\<close>
  "sample_table = [sample_algorithmica, sample_ai, sample_cvpr]"

definition sample_paper :: Item where
  \<comment> \<open>a conference paper whose proceedings title matches nothing\<close>
  "sample_paper = \<lparr>itemID = 7, itemType = ''conferencePaper'',
     fieldValues = (\<lambda>f. if f = ''proceedingsTitle''
                           then ''Proceedings of the 2024 Workshop on Nothing''
                         else if f = ''publicationTitle'' then ''CVPR 2024'' else [])\<rparr>"

definition sample_store :: ManualCCFRankService where
  "sample_store = setRank 2 B (setRank 1 A new_ManualCCFRankService)"


section \<open>The manual override store: properties\<close>

lemma apply_op_exclusive:
  "\<forall>i. \<not> (hasManualRank s i \<and> isIgnored s i) \<Longrightarrow>
   \<not> (hasManualRank (apply_op s x) i \<and> isIgnored (apply_op s x) i)"
  by (cases x)
     (auto simp: setRank_def clearRank_def ignoreItem_def hasManualRank_def isIgnored_def)

lemma run_ops_exclusive:
  "\<forall>i. \<not> (hasManualRank s i \<and> isIgnored s i) \<Longrightarrow>
   \<forall>i. \<not> (hasManualRank (run_ops ops s) i \<and> isIgnored (run_ops ops s) i)"
  unfolding run_ops_def
proof (induction ops arbitrary: s)
  case Nil
  then show ?case by simp
next
  case (Cons x xs)
  have "\<forall>i. \<not> (hasManualRank (apply_op s x) i \<and> isIgnored (apply_op s x) i)"
    using apply_op_exclusive[OF Cons.prems] by blast
  from Cons.IH[OF this] show ?case by simp
qed

lemma rank_str_nonempty: "rank_str r \<noteq> []"
  by (cases r) (simp_all add: rank_str_def)

text \<open>
  C5. A rank and the ignored status exclude each other. From a store in which no item has
  both, and so from the new store, no sequence of \<open>setRank\<close>, \<open>clearRank\<close> and \<open>ignoreItem\<close>
  reaches a store in which an item has both. From any store, \<open>setRank\<close> leaves its item not
  ignored, \<open>ignoreItem\<close> leaves its item without a rank, and \<open>setRank\<close> followed by
  \<open>ignoreItem\<close> on the same item leaves \<open>getRank\<close> at null.
\<close>

theorem manual_rank_and_ignore_exclusive:
  "((\<forall>i. \<not> (hasManualRank s i \<and> isIgnored s i)) \<longrightarrow>
      (\<forall>i. \<not> (hasManualRank (run_ops ops s) i \<and> isIgnored (run_ops ops s) i)))
   \<and> (\<forall>i. \<not> (hasManualRank (run_ops ops new_ManualCCFRankService) i
              \<and> isIgnored (run_ops ops new_ManualCCFRankService) i))
   \<and> \<not> isIgnored (setRank i r s) i
   \<and> \<not> hasManualRank (ignoreItem i s) i
   \<and> getRank (ignoreItem i (setRank i r s)) i = None"
proof -
  have a: "(\<forall>i. \<not> (hasManualRank s i \<and> isIgnored s i)) \<longrightarrow>
      (\<forall>i. \<not> (hasManualRank (run_ops ops s) i \<and> isIgnored (run_ops ops s) i))"
    using run_ops_exclusive by blast
  have "\<forall>i. \<not> (hasManualRank new_ManualCCFRankService i
              \<and> isIgnored new_ManualCCFRankService i)"
    by (simp add: new_ManualCCFRankService_def hasManualRank_def)
  then have b: "\<forall>i. \<not> (hasManualRank (run_ops ops new_ManualCCFRankService) i
              \<and> isIgnored (run_ops ops new_ManualCCFRankService) i)"
    by (rule run_ops_exclusive)
  have c: "\<not> isIgnored (setRank i r s) i"
    by (simp add: setRank_def isIgnored_def)
  have d: "\<not> hasManualRank (ignoreItem i s) i"
    by (simp add: ignoreItem_def hasManualRank_def)
  have e: "getRank (ignoreItem i (setRank i r s)) i = None"
    by (simp add: ignoreItem_def getRank_def)
  from a b c d e show ?thesis by blast
qed

theorem manual_rank_and_ignore_exclusive_witness:
  "isIgnored (run_ops [IgnoreItem 1, SetRank 3 C] sample_store) 1
   \<and> \<not> hasManualRank (run_ops [IgnoreItem 1, SetRank 3 C] sample_store) 1
   \<and> hasManualRank sample_store 1
   \<and> getRank (ignoreItem 1 (setRank 1 A sample_store)) 1 = None"
proof -
  have h: "\<forall>i. \<not> (hasManualRank sample_store i \<and> isIgnored sample_store i)"
    by (simp add: sample_store_def setRank_def new_ManualCCFRankService_def isIgnored_def)
  have ign: "isIgnored (run_ops [IgnoreItem 1, SetRank 3 C] sample_store) 1"
    by code_simp
  have had: "hasManualRank sample_store 1"
    by code_simp
  from manual_rank_and_ignore_exclusive
         [of sample_store "[IgnoreItem 1, SetRank 3 C]" 1 A] h ign had
  show ?thesis by blast
qed

text \<open>
  C10. \<open>clearRank\<close> removes its item from the rank map and from the ignore set: afterwards
  \<open>getRank\<close> is null and \<open>isIgnored\<close> is false for it, and every other item keeps its stored
  rank and its ignored status.
\<close>

theorem clearRank_clears_both:
  "getRank (clearRank i s) i = None \<and> \<not> isIgnored (clearRank i s) i
   \<and> \<not> hasManualRank (clearRank i s) i
   \<and> (\<forall>j. j \<noteq> i \<longrightarrow>
         getRank (clearRank i s) j = getRank s j
       \<and> isIgnored (clearRank i s) j = isIgnored s j
       \<and> hasManualRank (clearRank i s) j = hasManualRank s j
       \<and> cache (clearRank i s) j = cache s j)"
  by (simp add: getRank_def clearRank_def isIgnored_def hasManualRank_def)

theorem clearRank_clears_both_witness:
  "getRank sample_store 1 = Some ''A''
   \<and> getRank (clearRank 1 sample_store) 1 = None
   \<and> getRank (clearRank 1 sample_store) 2 = Some ''B''"
proof -
  have before: "getRank sample_store 1 = Some ''A''"
    by code_simp
  have other: "getRank sample_store 2 = Some ''B''"
    by code_simp
  from clearRank_clears_both [of 1 sample_store] before other
  show ?thesis by simp
qed


section \<open>The display column: properties\<close>

text \<open>
  C6. The rank column shows nothing for an ignored item, whatever the matcher finds; for an
  item that is not ignored it shows the manual rank that \<open>getRank\<close> reads, whatever the
  matcher finds; otherwise it shows the matcher's rank, and the empty string when the
  matcher finds none. So after \<open>ignoreItem\<close> the column is empty, and after \<open>setRank\<close>
  it shows the rank that was set.
\<close>

theorem dataProvider_precedence:
  "(isIgnored m (itemID item) \<longrightarrow> dataProvider m svc item = [])
   \<and> (\<not> isIgnored m (itemID item) \<and> getRank m (itemID item) = Some r
        \<longrightarrow> dataProvider m svc item = r)
   \<and> (\<not> isIgnored m (itemID item) \<and> getRank m (itemID item) = None
        \<longrightarrow> dataProvider m svc item =
            (case getRankFromItem svc (Some item) of Some x \<Rightarrow> rank_str x | None \<Rightarrow> []))
   \<and> dataProvider (ignoreItem (itemID item) m) svc item = []
   \<and> dataProvider (setRank (itemID item) q m) svc item = rank_str q"
  by (simp add: dataProvider_def isIgnored_def ignoreItem_def setRank_def getRank_def
        rank_str_nonempty)

theorem dataProvider_precedence_witness:
  "getRankFromItem (new_CCFRankService [sample_cvpr] []) (Some sample_paper) = Some A
   \<and> dataProvider new_ManualCCFRankService (new_CCFRankService [sample_cvpr] []) sample_paper
       = ''A''
   \<and> dataProvider (setRank 7 B new_ManualCCFRankService)
         (new_CCFRankService [sample_cvpr] []) sample_paper = ''B''
   \<and> dataProvider (ignoreItem 7 new_ManualCCFRankService)
         (new_CCFRankService [sample_cvpr] []) sample_paper = []"
proof -
  have id7: "itemID sample_paper = 7"
    by (simp add: sample_paper_def)
  have matcher: "getRankFromItem (new_CCFRankService [sample_cvpr] []) (Some sample_paper)
                 = Some A"
    by code_simp
  have free: "\<not> isIgnored new_ManualCCFRankService 7
              \<and> getRank new_ManualCCFRankService 7 = None"
    by code_simp
  have set: "\<not> isIgnored (setRank 7 B new_ManualCCFRankService) 7
             \<and> getRank (setRank 7 B new_ManualCCFRankService) 7 = Some ''B''"
    by code_simp
  have ign: "isIgnored (ignoreItem 7 new_ManualCCFRankService) 7"
    by code_simp
  have 1: "dataProvider new_ManualCCFRankService (new_CCFRankService [sample_cvpr] [])
             sample_paper = ''A''"
    using dataProvider_precedence
            [of new_ManualCCFRankService sample_paper
                "new_CCFRankService [sample_cvpr] []"] free matcher id7
    by (simp add: rank_str_def)
  have 2: "dataProvider (setRank 7 B new_ManualCCFRankService)
             (new_CCFRankService [sample_cvpr] []) sample_paper = ''B''"
    using dataProvider_precedence
            [of "setRank 7 B new_ManualCCFRankService" sample_paper
                "new_CCFRankService [sample_cvpr] []" "''B''"] set id7
    by simp
  have 3: "dataProvider (ignoreItem 7 new_ManualCCFRankService)
             (new_CCFRankService [sample_cvpr] []) sample_paper = []"
    using dataProvider_precedence
            [of "ignoreItem 7 new_ManualCCFRankService" sample_paper
                "new_CCFRankService [sample_cvpr] []"] ign id7
    by simp
  from matcher 1 2 3 show ?thesis by simp
qed


section \<open>The field extractor: properties\<close>

lemma try_field_getEntry: "try_field svc f = getEntry svc (Some f)"
  by (simp add: try_field_def)

text \<open>
  C7. For a conference paper the matcher is applied to the proceedings title, then to the
  publication title, then to the conference name, and the first result that is not null is
  returned. A field that matches nothing, empty or not, passes the turn to the next field;
  when all three match nothing, what is left is the token in parentheses of the title.
\<close>

theorem conferencePaper_field_order:
  assumes "itemType item = ''conferencePaper''"
  shows "getEntryFromItem svc (Some item) =
     (case getEntry svc (Some (getField item ''proceedingsTitle'')) of Some e \<Rightarrow> Some e
      | None \<Rightarrow>
         (case getEntry svc (Some (getField item ''publicationTitle'')) of Some e \<Rightarrow> Some e
          | None \<Rightarrow>
             (case getEntry svc (Some (getField item ''conferenceName'')) of Some e \<Rightarrow> Some e
              | None \<Rightarrow> title_fallback svc item)))"
  using assms
  by (simp add: try_field_getEntry journal_strategy_def generic_fallback_def
        split: option.splits)

theorem conferencePaper_field_order_witness:
  "getField sample_paper ''proceedingsTitle'' \<noteq> []
   \<and> getEntry (new_CCFRankService [sample_cvpr] [])
        (Some (getField sample_paper ''proceedingsTitle'')) = None
   \<and> getEntryFromItem (new_CCFRankService [sample_cvpr] []) (Some sample_paper)
        = Some sample_cvpr"
proof -
  have ty: "itemType sample_paper = ''conferencePaper''"
    by (simp add: sample_paper_def)
  have nonempty: "getField sample_paper ''proceedingsTitle'' \<noteq> []"
    by (simp add: sample_paper_def getField_def)
  have first: "getEntry (new_CCFRankService [sample_cvpr] [])
                 (Some (getField sample_paper ''proceedingsTitle'')) = None"
    by code_simp
  have second: "getEntry (new_CCFRankService [sample_cvpr] [])
                  (Some (getField sample_paper ''publicationTitle'')) = Some sample_cvpr"
    by code_simp
  from conferencePaper_field_order [OF ty, of "new_CCFRankService [sample_cvpr] []"]
       nonempty first second
  show ?thesis by simp
qed


section \<open>The matcher: properties\<close>

text \<open>
  C8. \<open>getEntry\<close> returns null for an absent and for an empty name, whatever the index
  holds, so before the name is normalised or looked up; and when none of the four
  strategies finds an entry the result is null, a value and not an error.
\<close>

theorem getEntry_null_results:
  "getEntry svc None = None \<and> getEntry svc (Some []) = None
   \<and> (map_of (abbrsMap svc) (normalize_name name) = None
      \<and> map_of (fullNamesMap svc) (normalize_name name) = None
      \<and> fuzzy_abbr svc (normalize_name name) = None
      \<and> fuzzy_fullName svc (normalize_name name) = None
      \<longrightarrow> getEntry svc (Some name) = None)"
  by simp

theorem getEntry_null_results_witness:
  "map_of (abbrsMap (new_CCFRankService [sample_cvpr\<lparr>abbr := []\<rparr>] [])) [] \<noteq> None
   \<and> getEntry (new_CCFRankService [sample_cvpr\<lparr>abbr := []\<rparr>] []) (Some []) = None
   \<and> getEntry (new_CCFRankService [sample_cvpr] []) (Some ''Workshop on Nothing'') = None"
proof -
  have key: "map_of (abbrsMap (new_CCFRankService [sample_cvpr\<lparr>abbr := []\<rparr>] [])) [] \<noteq> None"
    by code_simp
  have none: "map_of (abbrsMap (new_CCFRankService [sample_cvpr] []))
                (normalize_name ''Workshop on Nothing'') = None
      \<and> map_of (fullNamesMap (new_CCFRankService [sample_cvpr] []))
                (normalize_name ''Workshop on Nothing'') = None
      \<and> fuzzy_abbr (new_CCFRankService [sample_cvpr] []) (normalize_name ''Workshop on Nothing'')
          = None
      \<and> fuzzy_fullName (new_CCFRankService [sample_cvpr] [])
          (normalize_name ''Workshop on Nothing'') = None"
    by code_simp
  from getEntry_null_results
         [of "new_CCFRankService [sample_cvpr\<lparr>abbr := []\<rparr>] []"]
       getEntry_null_results
         [of "new_CCFRankService [sample_cvpr] []" "''Workshop on Nothing''"]
       key none
  show ?thesis by blast
qed


section \<open>The index: properties\<close>

lemma find_append_split:
  "List.find P (as @ bs) =
     (case List.find P as of None \<Rightarrow> List.find P bs | Some a \<Rightarrow> Some a)"
  by (induction as) simp_all

lemma find_in_set: "List.find P xs = Some x \<Longrightarrow> x \<in> set xs \<and> P x"
  by (induction xs) (auto split: if_splits)

lemma find_last_of_table:
  assumes "all = xs @ e # ys" and "P e" and "\<forall>x\<in>set ys. \<not> P x"
  shows "List.find P (rev all) = Some e"
proof -
  have "List.find P (rev ys) = None"
    using assms(3) by (simp add: find_None_iff)
  then show ?thesis
    using assms(1,2) by (simp add: find_append_split)
qed

lemma abbrsMap_index_entry:
  "map_of (abbrsMap (index_entry svc e)) k =
     (if toLowerCase (abbr e) = k then Some e else map_of (abbrsMap svc) k)"
  by (simp add: index_entry_def update_conv')

lemma fullNamesMap_index_entry:
  "map_of (fullNamesMap (index_entry svc e)) k =
     (if toLowerCase (fullName e) = k then Some e else map_of (fullNamesMap svc) k)"
  by (simp add: index_entry_def update_conv')

lemma abbrsMap_foldl:
  "map_of (abbrsMap (foldl index_entry svc es)) k =
     (case List.find (\<lambda>e. toLowerCase (abbr e) = k) (rev es) of
        Some e \<Rightarrow> Some e | None \<Rightarrow> map_of (abbrsMap svc) k)"
  by (induction es rule: rev_induct) (simp_all add: abbrsMap_index_entry)

lemma fullNamesMap_foldl:
  "map_of (fullNamesMap (foldl index_entry svc es)) k =
     (case List.find (\<lambda>e. toLowerCase (fullName e) = k) (rev es) of
        Some e \<Rightarrow> Some e | None \<Rightarrow> map_of (fullNamesMap svc) k)"
  by (induction es rule: rev_induct) (simp_all add: fullNamesMap_index_entry)

lemma abbrsMap_new:
  "map_of (abbrsMap (new_CCFRankService cs js)) k =
     List.find (\<lambda>e. toLowerCase (abbr e) = k) (rev (cs @ js))"
  unfolding new_CCFRankService_def abbrsMap_foldl by (simp split: option.splits)

lemma fullNamesMap_new:
  "map_of (fullNamesMap (new_CCFRankService cs js)) k =
     List.find (\<lambda>e. toLowerCase (fullName e) = k) (rev (cs @ js))"
  unfolding new_CCFRankService_def fullNamesMap_foldl by (simp split: option.splits)

text \<open>
  C9. Each mapping sends a key to the last entry of the table, conferences before journals,
  whose lower-cased abbreviation (or full name) is that key. So of two entries with equal
  lower-cased abbreviations (or full names) the later one is the one the index holds, as
  long as no third entry with that key follows it.
\<close>

theorem index_later_entry_overwrites:
  "map_of (abbrsMap (new_CCFRankService cs js)) k =
     List.find (\<lambda>e. toLowerCase (abbr e) = k) (rev (cs @ js))
   \<and> map_of (fullNamesMap (new_CCFRankService cs js)) k =
     List.find (\<lambda>e. toLowerCase (fullName e) = k) (rev (cs @ js))
   \<and> (cs @ js = xs @ e1 # ys @ e2 # zs
      \<and> toLowerCase (abbr e1) = toLowerCase (abbr e2)
      \<and> (\<forall>e\<in>set zs. toLowerCase (abbr e) \<noteq> toLowerCase (abbr e2))
      \<longrightarrow> map_of (abbrsMap (new_CCFRankService cs js)) (toLowerCase (abbr e1)) = Some e2)
   \<and> (cs @ js = xs @ e1 # ys @ e2 # zs
      \<and> toLowerCase (fullName e1) = toLowerCase (fullName e2)
      \<and> (\<forall>e\<in>set zs. toLowerCase (fullName e) \<noteq> toLowerCase (fullName e2))
      \<longrightarrow> map_of (fullNamesMap (new_CCFRankService cs js)) (toLowerCase (fullName e1))
           = Some e2)"
proof -
  have a: "cs @ js = xs @ e1 # ys @ e2 # zs
      \<and> toLowerCase (abbr e1) = toLowerCase (abbr e2)
      \<and> (\<forall>e\<in>set zs. toLowerCase (abbr e) \<noteq> toLowerCase (abbr e2))
      \<longrightarrow> map_of (abbrsMap (new_CCFRankService cs js)) (toLowerCase (abbr e1)) = Some e2"
  proof
    assume h: "cs @ js = xs @ e1 # ys @ e2 # zs
      \<and> toLowerCase (abbr e1) = toLowerCase (abbr e2)
      \<and> (\<forall>e\<in>set zs. toLowerCase (abbr e) \<noteq> toLowerCase (abbr e2))"
    then have "cs @ js = (xs @ e1 # ys) @ e2 # zs"
      by simp
    from find_last_of_table
           [OF this, of "\<lambda>e. toLowerCase (abbr e) = toLowerCase (abbr e1)"] h
    show "map_of (abbrsMap (new_CCFRankService cs js)) (toLowerCase (abbr e1)) = Some e2"
      by (simp add: abbrsMap_new)
  qed
  have b: "cs @ js = xs @ e1 # ys @ e2 # zs
      \<and> toLowerCase (fullName e1) = toLowerCase (fullName e2)
      \<and> (\<forall>e\<in>set zs. toLowerCase (fullName e) \<noteq> toLowerCase (fullName e2))
      \<longrightarrow> map_of (fullNamesMap (new_CCFRankService cs js)) (toLowerCase (fullName e1))
           = Some e2"
  proof
    assume h: "cs @ js = xs @ e1 # ys @ e2 # zs
      \<and> toLowerCase (fullName e1) = toLowerCase (fullName e2)
      \<and> (\<forall>e\<in>set zs. toLowerCase (fullName e) \<noteq> toLowerCase (fullName e2))"
    then have "cs @ js = (xs @ e1 # ys) @ e2 # zs"
      by simp
    from find_last_of_table
           [OF this, of "\<lambda>e. toLowerCase (fullName e) = toLowerCase (fullName e1)"] h
    show "map_of (fullNamesMap (new_CCFRankService cs js)) (toLowerCase (fullName e1))
          = Some e2"
      by (simp add: fullNamesMap_new)
  qed
  from a b abbrsMap_new fullNamesMap_new show ?thesis by blast
qed

theorem index_later_entry_overwrites_witness:
  "map_of (abbrsMap (new_CCFRankService [sample_dcc_conf] [sample_dcc_journal]))
     (toLowerCase (abbr sample_dcc_conf)) = Some sample_dcc_journal
   \<and> map_of (fullNamesMap (new_CCFRankService [sample_cvpr] [sample_cvpr\<lparr>rank := B\<rparr>]))
       (toLowerCase (fullName sample_cvpr)) = Some (sample_cvpr\<lparr>rank := B\<rparr>)"
proof -
  have k1: "toLowerCase (abbr sample_dcc_conf) = toLowerCase (abbr sample_dcc_journal)"
    by code_simp
  have h1: "[sample_dcc_conf] @ [sample_dcc_journal]
              = [] @ sample_dcc_conf # [] @ sample_dcc_journal # []
      \<and> toLowerCase (abbr sample_dcc_conf) = toLowerCase (abbr sample_dcc_journal)
      \<and> (\<forall>e\<in>set []. toLowerCase (abbr e) \<noteq> toLowerCase (abbr sample_dcc_journal))"
    using k1 by simp
  have h2: "[sample_cvpr] @ [sample_cvpr\<lparr>rank := B\<rparr>]
              = [] @ sample_cvpr # [] @ sample_cvpr\<lparr>rank := B\<rparr> # []
      \<and> toLowerCase (fullName sample_cvpr) = toLowerCase (fullName (sample_cvpr\<lparr>rank := B\<rparr>))
      \<and> (\<forall>e\<in>set []. toLowerCase (fullName e)
                        \<noteq> toLowerCase (fullName (sample_cvpr\<lparr>rank := B\<rparr>)))"
    by simp
  note T1 = index_later_entry_overwrites
         [of "[sample_dcc_conf]" "[sample_dcc_journal]" "[]" "[]" sample_dcc_conf "[]"
             sample_dcc_journal "[]"]
  note T2 = index_later_entry_overwrites
         [of "[sample_cvpr]" "[sample_cvpr\<lparr>rank := B\<rparr>]" "[]" "[]" sample_cvpr "[]"
             "sample_cvpr\<lparr>rank := B\<rparr>" "[]"]
  have r1: "map_of (abbrsMap (new_CCFRankService [sample_dcc_conf] [sample_dcc_journal]))
     (toLowerCase (abbr sample_dcc_conf)) = Some sample_dcc_journal"
    by (rule T1 [THEN conjunct2, THEN conjunct2, THEN conjunct1, THEN mp, OF h1])
  have r2: "map_of (fullNamesMap (new_CCFRankService [sample_cvpr] [sample_cvpr\<lparr>rank := B\<rparr>]))
       (toLowerCase (fullName sample_cvpr)) = Some (sample_cvpr\<lparr>rank := B\<rparr>)"
    by (rule T2 [THEN conjunct2, THEN conjunct2, THEN conjunct2, THEN mp, OF h2])
  from r1 r2 show ?thesis by (rule conjI)
qed


section \<open>The fuzzy strategies: properties\<close>

lemma set_update_subset: "set (AList.update k v al) \<subseteq> insert (k, v) (set al)"
  by (induction al) auto

lemma abbrsMap_index_entry_set:
  "(k, v) \<in> set (abbrsMap (index_entry svc e)) \<Longrightarrow>
   (k = toLowerCase (abbr e) \<and> v = e) \<or> (k, v) \<in> set (abbrsMap svc)"
  using set_update_subset [of "toLowerCase (abbr e)" e "abbrsMap svc"]
  by (auto simp: index_entry_def)

lemma fullNamesMap_index_entry_set:
  "(k, v) \<in> set (fullNamesMap (index_entry svc e)) \<Longrightarrow>
   (k = toLowerCase (fullName e) \<and> v = e) \<or> (k, v) \<in> set (fullNamesMap svc)"
  using set_update_subset [of "toLowerCase (fullName e)" e "fullNamesMap svc"]
  by (auto simp: index_entry_def)

lemma abbrsMap_keys_foldl:
  "(k, v) \<in> set (abbrsMap (foldl index_entry svc es)) \<Longrightarrow>
   (k, v) \<in> set (abbrsMap svc) \<or> (v \<in> set es \<and> k = toLowerCase (abbr v))"
proof (induction es arbitrary: k v rule: rev_induct)
  case Nil
  then show ?case by simp
next
  case (snoc e es)
  from snoc.prems
  have "(k, v) \<in> set (abbrsMap (index_entry (foldl index_entry svc es) e))"
    by simp
  from abbrsMap_index_entry_set [OF this] snoc.IH show ?case by auto
qed

lemma fullNamesMap_keys_foldl:
  "(k, v) \<in> set (fullNamesMap (foldl index_entry svc es)) \<Longrightarrow>
   (k, v) \<in> set (fullNamesMap svc) \<or> (v \<in> set es \<and> k = toLowerCase (fullName v))"
proof (induction es arbitrary: k v rule: rev_induct)
  case Nil
  then show ?case by simp
next
  case (snoc e es)
  from snoc.prems
  have "(k, v) \<in> set (fullNamesMap (index_entry (foldl index_entry svc es) e))"
    by simp
  from fullNamesMap_index_entry_set [OF this] snoc.IH show ?case by auto
qed

lemma fuzzy_scan_Some:
  "fuzzy_scan n s al = Some v \<Longrightarrow>
   \<exists>k. (k, v) \<in> set al \<and> n \<le> length k \<and> includes_str s k"
  by (induction n s al rule: fuzzy_scan.induct) (auto split: if_splits)

lemma fuzzy_scan_find:
  "fuzzy_scan n s al =
     map_option snd (List.find (\<lambda>(k, v). n \<le> length k \<and> includes_str s k) al)"
  by (induction n s al rule: fuzzy_scan.induct) simp_all

text \<open>
  C4. Whatever the input, an entry that strategy 3 returns has a lower-cased abbreviation
  of length at least 4, and an entry that strategy 4 returns has a lower-cased full name
  of length at least 20; the returned entry is an entry of the table and its key occurs in
  the normalised input. An entry with a shorter key is never returned by that strategy,
  whether or not the input contains the key.
\<close>

theorem fuzzy_guards:
  "(fuzzy_abbr (new_CCFRankService cs js) normalized = Some e \<longrightarrow>
      4 \<le> length (toLowerCase (abbr e))
      \<and> includes_str normalized (toLowerCase (abbr e)) \<and> e \<in> set (cs @ js))
   \<and> (fuzzy_fullName (new_CCFRankService cs js) normalized = Some e \<longrightarrow>
      20 \<le> length (toLowerCase (fullName e))
      \<and> includes_str normalized (toLowerCase (fullName e)) \<and> e \<in> set (cs @ js))"
proof -
  have a: "fuzzy_abbr (new_CCFRankService cs js) normalized = Some e \<longrightarrow>
      4 \<le> length (toLowerCase (abbr e))
      \<and> includes_str normalized (toLowerCase (abbr e)) \<and> e \<in> set (cs @ js)"
  proof
    assume "fuzzy_abbr (new_CCFRankService cs js) normalized = Some e"
    then obtain k where k: "(k, e) \<in> set (abbrsMap (new_CCFRankService cs js))"
        "4 \<le> length k" "includes_str normalized k"
      unfolding fuzzy_abbr_def using fuzzy_scan_Some by blast
    from k(1) have "e \<in> set (cs @ js) \<and> k = toLowerCase (abbr e)"
      unfolding new_CCFRankService_def using abbrsMap_keys_foldl by fastforce
    with k show "4 \<le> length (toLowerCase (abbr e))
      \<and> includes_str normalized (toLowerCase (abbr e)) \<and> e \<in> set (cs @ js)"
      by simp
  qed
  have b: "fuzzy_fullName (new_CCFRankService cs js) normalized = Some e \<longrightarrow>
      20 \<le> length (toLowerCase (fullName e))
      \<and> includes_str normalized (toLowerCase (fullName e)) \<and> e \<in> set (cs @ js)"
  proof
    assume "fuzzy_fullName (new_CCFRankService cs js) normalized = Some e"
    then obtain k where k: "(k, e) \<in> set (fullNamesMap (new_CCFRankService cs js))"
        "20 \<le> length k" "includes_str normalized k"
      unfolding fuzzy_fullName_def using fuzzy_scan_Some by blast
    from k(1) have "e \<in> set (cs @ js) \<and> k = toLowerCase (fullName e)"
      unfolding new_CCFRankService_def using fullNamesMap_keys_foldl by fastforce
    with k show "20 \<le> length (toLowerCase (fullName e))
      \<and> includes_str normalized (toLowerCase (fullName e)) \<and> e \<in> set (cs @ js)"
      by simp
  qed
  from a b show ?thesis by blast
qed

theorem fuzzy_guards_witness:
  "includes_str ''ai and cvpr workshop'' (toLowerCase (abbr sample_ai))
   \<and> fuzzy_abbr (new_CCFRankService sample_table []) ''ai and cvpr workshop''
       = Some sample_cvpr
   \<and> 4 \<le> length (toLowerCase (abbr sample_cvpr))
   \<and> fuzzy_abbr (new_CCFRankService sample_table []) ''ai workshop'' = None
   \<and> includes_str ''algorithmica and ieee conference on computer vision and pattern recognition''
        (toLowerCase (fullName sample_algorithmica))
   \<and> fuzzy_fullName (new_CCFRankService sample_table [])
        ''algorithmica and ieee conference on computer vision and pattern recognition''
       = Some sample_cvpr
   \<and> 20 \<le> length (toLowerCase (fullName sample_cvpr))"
proof -
  have short3: "includes_str ''ai and cvpr workshop'' (toLowerCase (abbr sample_ai))"
    by code_simp
  have hit3: "fuzzy_abbr (new_CCFRankService sample_table []) ''ai and cvpr workshop''
              = Some sample_cvpr"
    by code_simp
  have miss3: "fuzzy_abbr (new_CCFRankService sample_table []) ''ai workshop'' = None"
    by code_simp
  have short4: "includes_str
       ''algorithmica and ieee conference on computer vision and pattern recognition''
       (toLowerCase (fullName sample_algorithmica))"
    by code_simp
  have hit4: "fuzzy_fullName (new_CCFRankService sample_table [])
        ''algorithmica and ieee conference on computer vision and pattern recognition''
       = Some sample_cvpr"
    by code_simp
  from fuzzy_guards [of sample_table "[]" "''ai and cvpr workshop''" sample_cvpr] hit3
  have g3: "4 \<le> length (toLowerCase (abbr sample_cvpr))"
    by blast
  from fuzzy_guards [of sample_table "[]"
         "''algorithmica and ieee conference on computer vision and pattern recognition''"
         sample_cvpr] hit4
  have g4: "20 \<le> length (toLowerCase (fullName sample_cvpr))"
    by blast
  from short3 hit3 g3 miss3 short4 hit4 g4 show ?thesis by blast
qed


section \<open>The strategy chain: properties\<close>

text \<open>
  C3, as amended. For a name that is not empty, \<open>getEntry\<close> returns the entry of the first
  strategy that succeeds, in the order exact abbreviation, exact full name, fuzzy
  abbreviation, fuzzy full name, and each fuzzy strategy returns the entry of the first
  key in iteration order that passes its guard. In particular, when the normalised name is
  a key of the full-name mapping and not a key of the abbreviation mapping, the entry of
  that key is returned, also when the fuzzy abbreviation strategy would have returned a
  different entry.
\<close>

theorem getEntry_strategy_order:
  assumes "name \<noteq> []"
  shows "(map_of (abbrsMap svc) (normalize_name name) = Some e
        \<longrightarrow> getEntry svc (Some name) = Some e)
   \<and> (map_of (abbrsMap svc) (normalize_name name) = None
        \<and> map_of (fullNamesMap svc) (normalize_name name) = Some e
        \<longrightarrow> getEntry svc (Some name) = Some e)
   \<and> (map_of (abbrsMap svc) (normalize_name name) = None
        \<and> map_of (fullNamesMap svc) (normalize_name name) = None
        \<and> fuzzy_abbr svc (normalize_name name) = Some e
        \<longrightarrow> getEntry svc (Some name) = Some e)
   \<and> (map_of (abbrsMap svc) (normalize_name name) = None
        \<and> map_of (fullNamesMap svc) (normalize_name name) = None
        \<and> fuzzy_abbr svc (normalize_name name) = None
        \<longrightarrow> getEntry svc (Some name) = fuzzy_fullName svc (normalize_name name))
   \<and> fuzzy_abbr svc (normalize_name name) =
        map_option snd
          (List.find (\<lambda>(k, v). 4 \<le> length k \<and> includes_str (normalize_name name) k)
             (abbrsMap svc))
   \<and> fuzzy_fullName svc (normalize_name name) =
        map_option snd
          (List.find (\<lambda>(k, v). 20 \<le> length k \<and> includes_str (normalize_name name) k)
             (fullNamesMap svc))
   \<and> (map_of (abbrsMap svc) (normalize_name name) = None
        \<and> map_of (fullNamesMap svc) (normalize_name name) = Some e
        \<and> fuzzy_abbr svc (normalize_name name) = Some e' \<and> e' \<noteq> e
        \<longrightarrow> getEntry svc (Some name) = Some e)"
proof -
  have order: "(map_of (abbrsMap svc) (normalize_name name) = Some e
        \<longrightarrow> getEntry svc (Some name) = Some e)
   \<and> (map_of (abbrsMap svc) (normalize_name name) = None
        \<and> map_of (fullNamesMap svc) (normalize_name name) = Some e
        \<longrightarrow> getEntry svc (Some name) = Some e)
   \<and> (map_of (abbrsMap svc) (normalize_name name) = None
        \<and> map_of (fullNamesMap svc) (normalize_name name) = None
        \<and> fuzzy_abbr svc (normalize_name name) = Some e
        \<longrightarrow> getEntry svc (Some name) = Some e)
   \<and> (map_of (abbrsMap svc) (normalize_name name) = None
        \<and> map_of (fullNamesMap svc) (normalize_name name) = None
        \<and> fuzzy_abbr svc (normalize_name name) = None
        \<longrightarrow> getEntry svc (Some name) = fuzzy_fullName svc (normalize_name name))"
    using assms by simp
  have scans: "fuzzy_abbr svc (normalize_name name) =
        map_option snd
          (List.find (\<lambda>(k, v). 4 \<le> length k \<and> includes_str (normalize_name name) k)
             (abbrsMap svc))
   \<and> fuzzy_fullName svc (normalize_name name) =
        map_option snd
          (List.find (\<lambda>(k, v). 20 \<le> length k \<and> includes_str (normalize_name name) k)
             (fullNamesMap svc))"
    by (simp only: fuzzy_abbr_def fuzzy_fullName_def fuzzy_scan_find)
  from order scans show ?thesis by blast
qed

theorem getEntry_strategy_order_witness:
  "fuzzy_abbr (new_CCFRankService [sample_cvpr, sample_cvprw] [])
       (normalize_name ''CVPR Workshops'') = Some sample_cvpr
   \<and> sample_cvpr \<noteq> sample_cvprw
   \<and> getEntry (new_CCFRankService [sample_cvpr, sample_cvprw] []) (Some ''CVPR Workshops'')
       = Some sample_cvprw"
proof -
  have ne: "''CVPR Workshops'' \<noteq> []"
    by simp
  have h: "map_of (abbrsMap (new_CCFRankService [sample_cvpr, sample_cvprw] []))
             (normalize_name ''CVPR Workshops'') = None
        \<and> map_of (fullNamesMap (new_CCFRankService [sample_cvpr, sample_cvprw] []))
             (normalize_name ''CVPR Workshops'') = Some sample_cvprw
        \<and> fuzzy_abbr (new_CCFRankService [sample_cvpr, sample_cvprw] [])
             (normalize_name ''CVPR Workshops'') = Some sample_cvpr
        \<and> sample_cvpr \<noteq> sample_cvprw"
    by code_simp
  note T = getEntry_strategy_order
             [OF ne, of "new_CCFRankService [sample_cvpr, sample_cvprw] []"
                sample_cvprw sample_cvpr]
  have r: "getEntry (new_CCFRankService [sample_cvpr, sample_cvprw] [])
             (Some ''CVPR Workshops'') = Some sample_cvprw"
    by (rule T [THEN conjunct2, THEN conjunct2, THEN conjunct2, THEN conjunct2,
                THEN conjunct2, THEN conjunct2, THEN mp, OF h])
  from h r show ?thesis by blast
qed

text \<open>
  C3 as stated fails. The normalised form of "Networking" is a key of the full-name
  mapping, of \<open>sample_netw\<close>, and contains the abbreviation of another entry,
  \<open>sample_networking\<close>, of length 10; strategy 1 finds that abbreviation as an exact key
  and \<open>getEntry\<close> returns \<open>sample_networking\<close>.
\<close>

theorem getEntry_fullName_key_counterexample:
  "map_of (fullNamesMap (new_CCFRankService [sample_networking] [sample_netw]))
          (normalize_name ''Networking'') = Some sample_netw
   \<and> includes_str (normalize_name ''Networking'') (toLowerCase (abbr sample_networking))
   \<and> 4 \<le> length (toLowerCase (abbr sample_networking))
   \<and> getEntry (new_CCFRankService [sample_networking] [sample_netw]) (Some ''Networking'')
       = Some sample_networking
   \<and> sample_networking \<noteq> sample_netw"
  by code_simp


section \<open>Looking up the table's own names\<close>

text \<open>
  C1, as amended. Let \<open>E\<close> be an entry of the table. If its abbreviation is not empty, the
  normalisation of the abbreviation is its lower-cased form, and no later entry has the
  same lower-cased abbreviation, then \<open>getEntry\<close> of the abbreviation returns \<open>E\<close>. If its
  full name is not empty, the normalisation of the full name is its lower-cased form, no
  later entry has the same lower-cased full name, and no other entry has it as lower-cased
  abbreviation, then \<open>getEntry\<close> of the full name returns \<open>E\<close>.
\<close>

theorem getEntry_roundtrip:
  "(cs @ js = xs @ E # ys
      \<and> (\<forall>e\<in>set ys. toLowerCase (abbr e) \<noteq> toLowerCase (abbr E))
      \<and> abbr E \<noteq> [] \<and> normalize_name (abbr E) = toLowerCase (abbr E)
      \<longrightarrow> getEntry (new_CCFRankService cs js) (Some (abbr E)) = Some E)
   \<and> (cs @ js = xs @ E # ys
      \<and> (\<forall>e\<in>set ys. toLowerCase (fullName e) \<noteq> toLowerCase (fullName E))
      \<and> (\<forall>e\<in>set (cs @ js). toLowerCase (abbr e) = toLowerCase (fullName E) \<longrightarrow> e = E)
      \<and> fullName E \<noteq> [] \<and> normalize_name (fullName E) = toLowerCase (fullName E)
      \<longrightarrow> getEntry (new_CCFRankService cs js) (Some (fullName E)) = Some E)"
proof -
  have a: "cs @ js = xs @ E # ys
      \<and> (\<forall>e\<in>set ys. toLowerCase (abbr e) \<noteq> toLowerCase (abbr E))
      \<and> abbr E \<noteq> [] \<and> normalize_name (abbr E) = toLowerCase (abbr E)
      \<longrightarrow> getEntry (new_CCFRankService cs js) (Some (abbr E)) = Some E"
  proof
    assume h: "cs @ js = xs @ E # ys
      \<and> (\<forall>e\<in>set ys. toLowerCase (abbr e) \<noteq> toLowerCase (abbr E))
      \<and> abbr E \<noteq> [] \<and> normalize_name (abbr E) = toLowerCase (abbr E)"
    then have "List.find (\<lambda>e. toLowerCase (abbr e) = toLowerCase (abbr E)) (rev (cs @ js))
               = Some E"
      by (intro find_last_of_table[of _ xs E ys]) auto
    then have "map_of (abbrsMap (new_CCFRankService cs js)) (normalize_name (abbr E))
               = Some E"
      using h by (simp add: abbrsMap_new)
    with h show "getEntry (new_CCFRankService cs js) (Some (abbr E)) = Some E"
      by simp
  qed
  have b: "cs @ js = xs @ E # ys
      \<and> (\<forall>e\<in>set ys. toLowerCase (fullName e) \<noteq> toLowerCase (fullName E))
      \<and> (\<forall>e\<in>set (cs @ js). toLowerCase (abbr e) = toLowerCase (fullName E) \<longrightarrow> e = E)
      \<and> fullName E \<noteq> [] \<and> normalize_name (fullName E) = toLowerCase (fullName E)
      \<longrightarrow> getEntry (new_CCFRankService cs js) (Some (fullName E)) = Some E"
  proof
    assume h: "cs @ js = xs @ E # ys
      \<and> (\<forall>e\<in>set ys. toLowerCase (fullName e) \<noteq> toLowerCase (fullName E))
      \<and> (\<forall>e\<in>set (cs @ js). toLowerCase (abbr e) = toLowerCase (fullName E) \<longrightarrow> e = E)
      \<and> fullName E \<noteq> [] \<and> normalize_name (fullName E) = toLowerCase (fullName E)"
    then have "List.find (\<lambda>e. toLowerCase (fullName e) = toLowerCase (fullName E))
                 (rev (cs @ js)) = Some E"
      by (intro find_last_of_table[of _ xs E ys]) auto
    then have f: "map_of (fullNamesMap (new_CCFRankService cs js))
                    (normalize_name (fullName E)) = Some E"
      using h by (simp add: fullNamesMap_new)
    have "map_of (abbrsMap (new_CCFRankService cs js)) (normalize_name (fullName E)) = None
          \<or> map_of (abbrsMap (new_CCFRankService cs js)) (normalize_name (fullName E))
             = Some E"
    proof (cases "map_of (abbrsMap (new_CCFRankService cs js)) (normalize_name (fullName E))")
      case None
      then show ?thesis by simp
    next
      case (Some x)
      then have "List.find (\<lambda>e. toLowerCase (abbr e) = toLowerCase (fullName E))
                   (rev (cs @ js)) = Some x"
        using h by (simp add: abbrsMap_new)
      from find_in_set[OF this]
      have "x \<in> set (cs @ js)" and "toLowerCase (abbr x) = toLowerCase (fullName E)"
        by auto
      with h have "x = E"
        by blast
      with Some show ?thesis by simp
    qed
    with f h show "getEntry (new_CCFRankService cs js) (Some (fullName E)) = Some E"
      by auto
  qed
  from a b show ?thesis by blast
qed

theorem getEntry_roundtrip_witness:
  "getEntry (new_CCFRankService [sample_dcc_conf] [sample_dcc_journal, sample_cvpr])
     (Some (abbr sample_dcc_journal)) = Some sample_dcc_journal
   \<and> getEntry (new_CCFRankService [sample_dcc_conf] [sample_dcc_journal, sample_cvpr])
       (Some (fullName sample_dcc_journal)) = Some sample_dcc_journal"
proof -
  have split: "[sample_dcc_conf] @ [sample_dcc_journal, sample_cvpr]
               = [sample_dcc_conf] @ sample_dcc_journal # [sample_cvpr]"
    by simp
  have last_abbr: "\<forall>e\<in>set [sample_cvpr].
                     toLowerCase (abbr e) \<noteq> toLowerCase (abbr sample_dcc_journal)"
    by code_simp
  have last_full: "\<forall>e\<in>set [sample_cvpr].
                     toLowerCase (fullName e) \<noteq> toLowerCase (fullName sample_dcc_journal)"
    by code_simp
  have no_abbr: "\<forall>e\<in>set ([sample_dcc_conf] @ [sample_dcc_journal, sample_cvpr]).
                   toLowerCase (abbr e) = toLowerCase (fullName sample_dcc_journal)
                   \<longrightarrow> e = sample_dcc_journal"
    by code_simp
  have stable: "abbr sample_dcc_journal \<noteq> []
      \<and> normalize_name (abbr sample_dcc_journal) = toLowerCase (abbr sample_dcc_journal)
      \<and> fullName sample_dcc_journal \<noteq> []
      \<and> normalize_name (fullName sample_dcc_journal)
          = toLowerCase (fullName sample_dcc_journal)"
    by code_simp
  note T = getEntry_roundtrip
             [of "[sample_dcc_conf]" "[sample_dcc_journal, sample_cvpr]" "[sample_dcc_conf]"
                 sample_dcc_journal "[sample_cvpr]"]
  from split last_abbr stable
  have r1: "getEntry (new_CCFRankService [sample_dcc_conf] [sample_dcc_journal, sample_cvpr])
     (Some (abbr sample_dcc_journal)) = Some sample_dcc_journal"
    by (intro T [THEN conjunct1, THEN mp]) blast
  from split last_full no_abbr stable
  have r2: "getEntry (new_CCFRankService [sample_dcc_conf] [sample_dcc_journal, sample_cvpr])
       (Some (fullName sample_dcc_journal)) = Some sample_dcc_journal"
    by (intro T [THEN conjunct2, THEN mp]) blast
  from r1 r2 show ?thesis by (rule conjI)
qed

text \<open>
  C1 as stated fails. The full name of \<open>sample_proc_ieee\<close> normalises to "ieee", which is
  no key and contains none, so \<open>getEntry\<close> of the full name of the only entry of the table
  is null. And of two entries with the abbreviation "DCC", the journal after the
  conference, \<open>getEntry\<close> of the conference's abbreviation returns the journal.
\<close>

theorem getEntry_roundtrip_counterexample:
  "getEntry (new_CCFRankService [] [sample_proc_ieee]) (Some (fullName sample_proc_ieee))
     \<noteq> Some sample_proc_ieee
   \<and> getEntry (new_CCFRankService [] [sample_proc_ieee]) (Some (fullName sample_proc_ieee))
     = None
   \<and> getEntry (new_CCFRankService [sample_dcc_conf] [sample_dcc_journal])
        (Some (abbr sample_dcc_conf)) \<noteq> Some sample_dcc_conf
   \<and> getEntry (new_CCFRankService [sample_dcc_conf] [sample_dcc_journal])
        (Some (abbr sample_dcc_conf)) = Some sample_dcc_journal"
  by code_simp


section \<open>The normalisation: properties\<close>

lemma toLowerCase_char_idem: "toLowerCase_char (toLowerCase_char c) = toLowerCase_char c"
  by (simp add: toLowerCase_char_def Let_def)

lemma toLowerCase_idem: "toLowerCase (toLowerCase s) = toLowerCase s"
  by (simp add: toLowerCase_def toLowerCase_char_idem)

lemma toLowerCase_fixed_subset:
  assumes "toLowerCase s = s" and "set t \<subseteq> set s"
  shows "toLowerCase t = t"
proof -
  have "\<forall>c\<in>set s. toLowerCase_char c = c"
    using assms(1) unfolding toLowerCase_def by (simp add: map_eq_conv[where g=id, simplified] map_idI)
  then have "\<forall>c\<in>set t. toLowerCase_char c = c" using assms(2) by blast
  then show ?thesis unfolding toLowerCase_def by (simp add: map_idI)
qed

lemma trim_sublist: "sublist (trim s) s"
proof -
  have "suffix (dropWhile is_space (rev (dropWhile is_space s))) (rev (dropWhile is_space s))"
    by (rule suffix_dropWhile)
  then have "prefix (trim s) (dropWhile is_space s)"
    by (simp add: trim_def suffix_to_prefix)
  moreover have "suffix (dropWhile is_space s) s" by (rule suffix_dropWhile)
  ultimately show ?thesis
    by (meson prefix_imp_sublist suffix_imp_sublist sublist_order.order.trans)
qed

lemma trimmed_trim: "trimmed (trim s)"
proof (cases "trim s = []")
  case True then show ?thesis by (simp add: trimmed_def)
next
  case False
  let ?u = "dropWhile is_space s"
  let ?w = "dropWhile is_space (rev ?u)"
  have tw: "trim s = rev ?w" by (simp add: trim_def)
  with False have wne: "?w \<noteq> []" by simp
  then have "\<not> is_space (hd ?w)" by (rule hd_dropWhile)
  then have l: "\<not> is_space (last (trim s))" using wne by (simp add: tw last_rev)
  have "suffix ?w (rev ?u)" by (rule suffix_dropWhile)
  then have "prefix (trim s) ?u" by (simp add: tw suffix_to_prefix)
  then obtain r where u: "?u = trim s @ r" by (auto simp: prefix_def)
  with False have une: "?u \<noteq> []" by auto
  then have "\<not> is_space (hd ?u)" by (rule hd_dropWhile)
  moreover have "hd ?u = hd (trim s)" using u False by (metis hd_append2)
  ultimately show ?thesis using l by (simp add: trimmed_def)
qed

lemma trim_trimmed: "trimmed t \<Longrightarrow> trim t = t"
proof (cases "t = []")
  case True then show ?thesis by (simp add: trim_def)
next
  case False
  assume "trimmed t"
  with False have h: "\<not> is_space (hd t)" and l: "\<not> is_space (last t)"
    by (simp_all add: trimmed_def)
  from h have 1: "dropWhile is_space t = t" by (simp add: dropWhile_eq_self_iff)
  from l False have "\<not> is_space (hd (rev t))" by (simp add: hd_rev)
  then have 2: "dropWhile is_space (rev t) = rev t" by (simp add: dropWhile_eq_self_iff)
  show ?thesis by (simp add: trim_def 1 2)
qed

lemma suffix_trans: "suffix a b \<Longrightarrow> suffix b c \<Longrightarrow> suffix a c"
  by (auto simp: suffix_def)

lemma lit_suffix: "lit p s = Some r \<Longrightarrow> suffix r s"
  by (induction p s rule: lit.induct) (auto split: if_splits intro: suffix_ConsI)

lemma opt_lit_suffix: "suffix (opt_lit p s) s"
  by (auto simp: opt_lit_def lit_suffix split: option.splits)

lemma digits_suffix: "digits n s = Some r \<Longrightarrow> suffix r s"
  by (auto simp: digits_def suffix_drop split: if_splits)

lemma spaces1_suffix: "spaces1 s = Some r \<Longrightarrow> suffix r s"
  by (auto simp: spaces1_def split: list.splits if_splits intro: suffix_ConsI suffix_dropWhile)

lemma opt_on_suffix: "suffix (opt_on s) s"
  by (auto simp: opt_on_def Option.bind_eq_Some_conv split: option.splits
           dest!: lit_suffix spaces1_suffix intro: suffix_trans)

lemma re_proceedings_year_suffix: "re_proceedings_year s = Some r \<Longrightarrow> suffix r s"
  unfolding re_proceedings_year_def
  by (auto split: option.splits dest!: lit_suffix digits_suffix spaces1_suffix)
     (meson opt_on_suffix opt_lit_suffix suffix_trans)

lemma re_proceedings_suffix: "re_proceedings s = Some r \<Longrightarrow> suffix r s"
  unfolding re_proceedings_def
  by (auto split: option.splits dest!: lit_suffix)
     (meson opt_lit_suffix suffix_trans)

lemma re_proc_suffix: "re_proc s = Some r \<Longrightarrow> suffix r s"
  unfolding re_proc_def
  by (auto split: option.splits dest!: lit_suffix)
     (meson opt_lit_suffix suffix_trans)

lemma digits_2_4_colon_suffix: "digits_2_4_colon s = Some r \<Longrightarrow> suffix r s"
  unfolding digits_2_4_colon_def
  by (auto simp: Option.bind_eq_Some_conv split: option.splits
           dest!: lit_suffix digits_suffix intro: suffix_trans)

lemma re_quoted_year_suffix: "re_quoted_year s = Some r \<Longrightarrow> suffix r s"
  unfolding re_quoted_year_def
  by (auto split: option.splits list.splits if_splits dest!: lit_suffix digits_2_4_colon_suffix)
     (meson suffix_ConsI suffix_dropWhile suffix_trans)

lemma re_leading_year_suffix: "re_leading_year s = Some r \<Longrightarrow> suffix r s"
  unfolding re_leading_year_def
  by (auto simp: Option.bind_eq_Some_conv dest!: digits_suffix spaces1_suffix intro: suffix_trans)

lemma replace_prefix_sublist:
  "(\<And>r. re s = Some r \<Longrightarrow> suffix r s) \<Longrightarrow> sublist (replace_prefix re s) s"
  by (auto simp: replace_prefix_def split: option.splits)

lemma replace_at_end_prefix: "prefix (replace_at_end full s) s"
  by (induction s) auto

lemma replace_at_end_sublist: "sublist (replace_at_end full s) s"
  using replace_at_end_prefix by blast

lemma strip_steps_sublist: "sublist (strip_steps s) s"
  unfolding strip_steps_def
  by (meson sublist_order.order.trans replace_at_end_sublist replace_prefix_sublist
        re_leading_year_suffix re_quoted_year_suffix re_proc_suffix re_proceedings_suffix
        re_proceedings_year_suffix)

text \<open>
  C2, as amended. The result of the normalisation is trimmed and in lower case, and
  normalising it again leaves it unchanged exactly when the seven replacements leave it
  unchanged, that is, when no prefix, trailing year or trailing group in parentheses is
  left in it for them to strip.
\<close>

theorem normalize_name_idempotent_iff:
  "trim (normalize_name s) = normalize_name s
   \<and> toLowerCase (normalize_name s) = normalize_name s
   \<and> (normalize_name (normalize_name s) = normalize_name s
        \<longleftrightarrow> strip_steps (normalize_name s) = normalize_name s)"
proof -
  let ?t = "normalize_name s"
  have tr: "trimmed ?t"
    by (simp add: normalize_name_def trimmed_trim)
  have "sublist ?t (toLowerCase (trim s))"
    unfolding normalize_name_def
    by (meson sublist_order.order.trans trim_sublist strip_steps_sublist)
  then have "set ?t \<subseteq> set (toLowerCase (trim s))"
    by (rule set_mono_sublist)
  from toLowerCase_fixed_subset [OF toLowerCase_idem this]
  have low: "toLowerCase ?t = ?t" .
  have nt: "normalize_name ?t = trim (strip_steps ?t)"
    by (subst normalize_name_def) (simp add: trim_trimmed [OF tr] low)
  have iff: "normalize_name ?t = ?t \<longleftrightarrow> strip_steps ?t = ?t"
  proof
    assume "normalize_name ?t = ?t"
    with nt have "trim (strip_steps ?t) = ?t"
      by simp
    then have "sublist ?t (strip_steps ?t)"
      using trim_sublist [of "strip_steps ?t"] by simp
    with strip_steps_sublist [of ?t] show "strip_steps ?t = ?t"
      by (rule sublist_order.order.antisym)
  next
    assume "strip_steps ?t = ?t"
    with nt show "normalize_name ?t = ?t"
      by (simp add: trim_trimmed [OF tr])
  qed
  from trim_trimmed [OF tr] low iff show ?thesis by blast
qed

theorem normalize_name_idempotent_iff_witness:
  "normalize_name ''CVPR 2024'' = ''cvpr''
   \<and> strip_steps (normalize_name ''CVPR 2024'') = normalize_name ''CVPR 2024''
   \<and> normalize_name (normalize_name ''CVPR 2024'') = normalize_name ''CVPR 2024''"
proof -
  have v: "normalize_name ''CVPR 2024'' = ''cvpr''"
    by code_simp
  have h: "strip_steps (normalize_name ''CVPR 2024'') = normalize_name ''CVPR 2024''"
    by code_simp
  have r: "normalize_name (normalize_name ''CVPR 2024'') = normalize_name ''CVPR 2024''"
    by (rule normalize_name_idempotent_iff
               [of "''CVPR 2024''", THEN conjunct2, THEN conjunct2, THEN iffD2, OF h])
  from v h r show ?thesis by blast
qed

text \<open>
  C2 as stated fails. The first pass over "ICML 2024 (ICML)" strips the group in
  parentheses and leaves "icml 2024", because the year was not at the end when the
  trailing-year step ran; the second pass strips the year and leaves "icml".
\<close>

theorem normalize_name_idempotent_counterexample:
  "normalize_name ''ICML 2024 (ICML)'' = ''icml 2024''
   \<and> normalize_name (normalize_name ''ICML 2024 (ICML)'') = ''icml''
   \<and> normalize_name (normalize_name ''ICML 2024 (ICML)'') \<noteq> normalize_name ''ICML 2024 (ICML)''"
  by code_simp

end
